theory Spec2Isabelle
  imports Complex_Main "HOL-Library.Word" "HOL-Library.Stream"
begin

section \<open>JavaScript strings\<close>

text \<open>
  A JavaScript string is a sequence of UTF-16 code units. ASCII literals of the source are
  written through \<open>lit\<close>; code units outside ASCII are given by number.
\<close>

type_synonym jsstring = "16 word list"

definition lit :: "string \<Rightarrow> jsstring" where
  "lit s = map (\<lambda>c. of_nat (of_char c)) s"

text \<open>
  The code units that \<open>String.prototype.trim\<close> and \<open>parseInt\<close> strip: ECMAScript's
  WhiteSpace (TAB, VT, FF, SP, NBSP, ZWNBSP and the category Zs) and LineTerminator
  (LF, CR, LS, PS).
\<close>

definition is_ws :: "16 word \<Rightarrow> bool" where
  "is_ws c \<longleftrightarrow>
     c \<in> set [0x0009, 0x000A, 0x000B, 0x000C, 0x000D, 0x0020, 0x00A0, 0x1680,
              0x2000, 0x2001, 0x2002, 0x2003, 0x2004, 0x2005, 0x2006, 0x2007,
              0x2008, 0x2009, 0x200A, 0x2028, 0x2029, 0x202F, 0x205F, 0x3000, 0xFEFF]"

definition trimStart :: "jsstring \<Rightarrow> jsstring" where
  "trimStart s = dropWhile is_ws s"

definition trimEnd :: "jsstring \<Rightarrow> jsstring" where
  "trimEnd s = rev (dropWhile is_ws (rev s))"

definition trim :: "jsstring \<Rightarrow> jsstring" where
  "trim s = trimEnd (trimStart s)"

section \<open>Query values and \<open>parseInt\<close>\<close>

text \<open>The exceptions of this program.\<close>

datatype exn = TypeError | ERR_HTTP_HEADERS_SENT | UpstreamError jsstring

text \<open>
  \<open>req.query.size\<close> is what the query-string parser made of the parameter: a string, an
  array (a repeated parameter) or an object with its own properties (bracket syntax, as
  in \<open>size[a]=1\<close>); it is \<open>undefined\<close> when the parameter is absent, modelled as \<open>None\<close>.

  \<open>parseInt\<close> first converts its argument with ToString. A string is itself; an array is
  its elements converted and joined with commas; an object is converted by its
  \<open>toString\<close> method, which is \<open>Object.prototype.toString\<close> and gives \<open>[object Object]\<close>
  unless the object has a property \<open>toString\<close> of its own: the parser only makes strings,
  arrays and objects, no function, so that property is not callable, \<open>valueOf\<close> gives no
  primitive either, and the conversion throws a TypeError.
\<close>

datatype qval = QString jsstring | QArray "qval list" | QObject "(jsstring \<times> qval) list"

fun join_comma :: "jsstring list \<Rightarrow> jsstring" where
  "join_comma [] = []"
| "join_comma [s] = s"
| "join_comma (s # t # ss) = s @ lit '','' @ join_comma (t # ss)"

text \<open>The results of a list of conversions, or the first exception among them.\<close>

fun all_or_throw :: "(exn + 'a) list \<Rightarrow> exn + 'a list" where
  "all_or_throw [] = Inr []"
| "all_or_throw (Inl x # rs) = Inl x"
| "all_or_throw (Inr a # rs) = (case all_or_throw rs of Inl x \<Rightarrow> Inl x | Inr as \<Rightarrow> Inr (a # as))"

fun toString_q :: "qval \<Rightarrow> exn + jsstring" where
  "toString_q (QString s) = Inr s"
| "toString_q (QArray vs) =
     (case all_or_throw (map toString_q vs) of Inl x \<Rightarrow> Inl x | Inr ss \<Rightarrow> Inr (join_comma ss))"
| "toString_q (QObject props) =
     (if lit ''toString'' \<in> set (map fst props) then Inl TypeError
      else Inr (lit ''[object Object]''))"

definition toString :: "qval option \<Rightarrow> exn + jsstring" where
  "toString v = (case v of None \<Rightarrow> Inr (lit ''undefined'') | Some q \<Rightarrow> toString_q q)"

text \<open>The value of a code unit as a digit of the given radix (10 or 16), if it is one.\<close>

definition digit_val :: "nat \<Rightarrow> 16 word \<Rightarrow> nat option" where
  "digit_val R c =
     (let v = (if 0x30 \<le> c \<and> c \<le> 0x39 then Some (unat c - 0x30)
               else if 0x61 \<le> c \<and> c \<le> 0x7A then Some (unat c - 0x61 + 10)
               else if 0x41 \<le> c \<and> c \<le> 0x5A then Some (unat c - 0x41 + 10)
               else None)
      in case v of None \<Rightarrow> None | Some d \<Rightarrow> if d < R then Some d else None)"

definition is_digit :: "nat \<Rightarrow> 16 word \<Rightarrow> bool" where
  "is_digit R c \<longleftrightarrow> digit_val R c \<noteq> None"

definition digits_value :: "nat \<Rightarrow> jsstring \<Rightarrow> int" where
  "digits_value R z = foldl (\<lambda>a c. a * int R + int (the (digit_val R c))) 0 z"

text \<open>
  \<open>parseInt\<close> with no radix argument, after ECMAScript. On the string that ToString gave:
  strip leading white space, take an optional sign, switch to radix 16 after a \<open>0x\<close> or
  \<open>0X\<close> prefix, read the longest prefix of digits; with no digit the result is NaN,
  modelled as \<open>None\<close>. When ToString throws, \<open>parseInt\<close> throws.

  The result is a mathematical integer here, where JavaScript rounds it to the nearest
  double. Every integer of magnitude up to \<open>2 ^ 53\<close> is a double, and rounding is monotone,
  so an integer above 200 rounds to a double above 200 and one below 1 to a double below 1:
  the truthiness test and the clamp to a range within \<open>[1, 200]\<close> that the handlers apply
  give the same number on both. Negative zero is falsy like zero.
\<close>

definition parseInt_string :: "jsstring \<Rightarrow> int option" where
  "parseInt_string inputString =
     (let S = trimStart inputString;
          sign = (if S \<noteq> [] \<and> hd S = 0x2D then - 1 else 1 :: int);
          S1 = (if S \<noteq> [] \<and> (hd S = 0x2B \<or> hd S = 0x2D) then tl S else S);
          hex = (take 2 S1 = lit ''0x'' \<or> take 2 S1 = lit ''0X'');
          R = (if hex then 16 else 10);
          S2 = (if hex then drop 2 S1 else S1);
          Z = takeWhile (is_digit R) S2
      in if Z = [] then None else Some (sign * digits_value R Z))"

definition parseInt :: "qval option \<Rightarrow> exn + int option" where
  "parseInt v = (case toString v of Inl x \<Rightarrow> Inl x | Inr s \<Rightarrow> Inr (parseInt_string s))"

text \<open>\<open>x || d\<close> on a number: NaN and zero are falsy.\<close>

definition or_default :: "int option \<Rightarrow> int \<Rightarrow> int" where
  "or_default x d = (case x of None \<Rightarrow> d | Some n \<Rightarrow> if n = 0 then d else n)"

section \<open>Download speed test\<close>

text \<open>
  The route \<open>GET /api/speedtest/download\<close>: lines 262 to 284 of the full server
  (\<open>src/unnamed/part_000\<close>), the same text as lines 103 to 125 of its earlier version.
  The handler has no \<open>try\<close>: when \<open>parseInt\<close> throws, the exception leaves the handler
  and nothing of the route is sent. \<open>crypto.randomBytes(n)\<close> takes the next \<open>n\<close> bytes of
  the system's entropy.
\<close>

type_synonym entropy = "8 word stream"

definition randomBytes :: "nat \<Rightarrow> entropy \<Rightarrow> 8 word list \<times> entropy" where
  "randomBytes n rng = (stake n rng, sdrop n rng)"

definition chunkSize :: nat where
  "chunkSize = 128 * 1024"

definition download_sizeMB :: "qval option \<Rightarrow> exn + int" where
  "download_sizeMB q =
     (case parseInt q of
        Inl x \<Rightarrow> Inl x
      | Inr parsed \<Rightarrow> Inr (min (max (or_default parsed 50) 1) 200))"

definition download_totalBytes :: "qval option \<Rightarrow> exn + nat" where
  "download_totalBytes q =
     (case download_sizeMB q of
        Inl x \<Rightarrow> Inl x
      | Inr sizeMB \<Rightarrow> Inr (nat (sizeMB * 1024 * 1024)))"

text \<open>
  The state of the \<open>Readable\<close>: the counter \<open>sent\<close> of the closure, and the entropy left.
  One call of \<open>read()\<close> pushes once: \<open>None\<close> for \<open>push(null)\<close>, the end of the stream, or a
  chunk.
\<close>

record dl_state =
  sent :: nat
  rng :: entropy

definition read :: "nat \<Rightarrow> dl_state \<Rightarrow> 8 word list option \<times> dl_state" where
  "read totalBytes st =
     (if sent st \<ge> totalBytes then (None, st)
      else let (chunk, rng') = randomBytes (min chunkSize (totalBytes - sent st)) (rng st)
           in (Some chunk, \<lparr>sent = sent st + length chunk, rng = rng'\<rparr>))"

text \<open>
  \<open>stream.pipe(res)\<close> with a client that reads to the end: \<open>read()\<close> is called again and
  again until it pushes \<open>null\<close>; the chunks pushed are the response body.
\<close>

function pipe :: "nat \<Rightarrow> dl_state \<Rightarrow> 8 word list list" where
  "pipe totalBytes st =
     (case read totalBytes st of
        (None, _) \<Rightarrow> []
      | (Some chunk, st') \<Rightarrow> chunk # pipe totalBytes st')"
  by pat_completeness auto
termination
proof (relation "measure (\<lambda>(totalBytes, st). totalBytes - sent st)", goal_cases)
  case 1
  show ?case by simp
next
  case (2 totalBytes st x y chunk)
  then have "read totalBytes st = (Some chunk, y)"
    by simp
  then have "sent st < totalBytes" and "sent y = sent st + min chunkSize (totalBytes - sent st)"
    by (auto simp: read_def randomBytes_def split: if_splits)
  then show ?case
    by (simp add: chunkSize_def)
qed

declare pipe.simps [simp del]

record download_response =
  dl_headers :: "(string \<times> string) list"
  dl_body :: "8 word list list"

definition download :: "qval option \<Rightarrow> entropy \<Rightarrow> exn + download_response" where
  "download q e =
     (case download_totalBytes q of
        Inl x \<Rightarrow> Inl x
      | Inr totalBytes \<Rightarrow>
          Inr \<lparr>dl_headers = [(''Content-Type'', ''application/octet-stream''),
                             (''Cache-Control'', ''no-store'')],
               dl_body = pipe totalBytes \<lparr>sent = 0, rng = e\<rparr>\<rparr>)"

text \<open>The states the generator can be in: the initial one, and those after a \<open>read()\<close>.\<close>

inductive reachable :: "nat \<Rightarrow> entropy \<Rightarrow> dl_state \<Rightarrow> bool" for totalBytes e where
  init: "reachable totalBytes e \<lparr>sent = 0, rng = e\<rparr>"
| step: "reachable totalBytes e st \<Longrightarrow> read totalBytes st = (p, st') \<Longrightarrow> reachable totalBytes e st'"

section \<open>Responses\<close>

text \<open>
  A JSON response: the status code and the fields of the object sent. The Express \<open>res\<close>
  object holds the status code set so far and what went out on the connection. A second
  \<open>res.json\<close> on the same response throws (the headers are already sent) and leaves what
  the client received unchanged.
\<close>

record response =
  status :: nat
  body :: "(string \<times> jsstring) list"

record res =
  statusCode :: nat
  wire :: "response option"

definition new_res :: res where
  "new_res = \<lparr>statusCode = 200, wire = None\<rparr>"

definition res_status :: "nat \<Rightarrow> res \<Rightarrow> res" where
  "res_status code r = r\<lparr>statusCode := code\<rparr>"

definition res_json :: "(string \<times> jsstring) list \<Rightarrow> res \<Rightarrow> exn option \<times> res" where
  "res_json obj r =
     (if wire r \<noteq> None then (Some ERR_HTTP_HEADERS_SENT, r)
      else (None, r\<lparr>wire := Some \<lparr>status = statusCode r, body = obj\<rparr>\<rparr>))"

section \<open>Chat route\<close>

text \<open>
  The route \<open>POST /chat\<close>: lines 178 to 251 of the full server (\<open>src/unnamed/part_000\<close>)
  and lines 38 to 93 of \<open>src/server.js\<close>. \<open>req.body\<close> is what the JSON middleware left
  there: the value it parsed, or, for a request it did not parse, either an empty object
  or nothing at all (\<open>undefined\<close>, modelled as \<open>None\<close>), depending on the version of the
  framework. A \<open>JObject\<close> lists the properties of a parsed object, each name once.
\<close>

datatype json =
  JNull | JBool bool | JNumber rat | JString jsstring
| JArray "json list" | JObject "(jsstring \<times> json) list"

fun truthy :: "json \<Rightarrow> bool" where
  "truthy JNull = False"
| "truthy (JBool b) = b"
| "truthy (JNumber x) = (x \<noteq> 0)"
| "truthy (JString s) = (s \<noteq> [])"
| "truthy (JArray _) = True"
| "truthy (JObject _) = True"

text \<open>
  \<open>const { message } = req.body\<close>: destructuring \<open>undefined\<close> or \<open>null\<close> throws a TypeError;
  otherwise \<open>message\<close> is the property of that name, \<open>undefined\<close> (\<open>None\<close>) when there is
  none, as for an array or a primitive value.
\<close>

fun destructure_message :: "json option \<Rightarrow> exn + json option" where
  "destructure_message None = Inl TypeError"
| "destructure_message (Some JNull) = Inl TypeError"
| "destructure_message (Some (JObject props)) = Inr (map_of props (lit ''message''))"
| "destructure_message (Some v) = Inr None"

text \<open>
  The test \<open>!message || message.trim() === ""\<close>: \<open>Inr None\<close> when it holds (the request is
  refused), \<open>Inr (Some s)\<close> when the message \<open>s\<close> passes, and a TypeError when the message
  is a truthy value with no \<open>trim\<close> method.
\<close>

fun check_message :: "json option \<Rightarrow> exn + jsstring option" where
  "check_message None = Inr None"
| "check_message (Some (JString s)) = (if s = [] \<or> trim s = [] then Inr None else Inr (Some s))"
| "check_message (Some v) = (if \<not> truthy v then Inr None else Inl TypeError)"

text \<open>
  The completion object of the upstream service, as far as the handler reads it:
  \<open>completion.choices?.[0]?.message?.content\<close>; every level may be missing.
\<close>

datatype chat_message = ChatMessage (content: "jsstring option")
datatype choice = Choice (message: "chat_message option")
datatype completion = Completion (choices: "choice list option")

definition first_content :: "completion \<Rightarrow> jsstring option" where
  "first_content c =
     (case choices c of None \<Rightarrow> None
      | Some [] \<Rightarrow> None
      | Some (ch # _) \<Rightarrow>
          (case message ch of None \<Rightarrow> None
           | Some m \<Rightarrow> content m))"

definition fallback_reply :: jsstring where
  "fallback_reply = lit ''Sorry, I didn'' @ [0x2019] @ lit ''t quite catch that.''"

definition validation_reply :: jsstring where
  "validation_reply = lit ''Please provide a valid message.''"

definition degradation_reply :: jsstring where
  "degradation_reply =
     [0x26A0, 0xFE0F] @
     lit '' Sorry, I'm having trouble responding right now. Please try again shortly.''"

text \<open>
  \<open>reply.replace(/<\/?s>/gi, "")\<close>: one pass from the left; at each position the pattern
  matches \<open><s>\<close> or \<open></s>\<close>, with \<open>s\<close> in either case, and the match is dropped. Without the
  \<open>u\<close> flag no other code unit matches \<open>s\<close> case-insensitively.
\<close>

definition match_tag :: "jsstring \<Rightarrow> jsstring option" where
  "match_tag cs =
     (let is_s = (\<lambda>c. c = 0x73 \<or> c = 0x53)
      in case cs of
           a # b # c # rest \<Rightarrow>
             if a = 0x3C \<and> is_s b \<and> c = 0x3E then Some rest
             else (case rest of
                     d # rest' \<Rightarrow>
                       if a = 0x3C \<and> b = 0x2F \<and> is_s c \<and> d = 0x3E then Some rest' else None
                   | [] \<Rightarrow> None)
         | _ \<Rightarrow> None)"

function remove_tags :: "jsstring \<Rightarrow> jsstring" where
  "remove_tags [] = []"
| "remove_tags (c # cs) =
     (case match_tag (c # cs) of
        Some rest \<Rightarrow> remove_tags rest
      | None \<Rightarrow> c # remove_tags cs)"
  by pat_completeness auto
termination
  by (relation "measure length") (auto simp: match_tag_def split: list.splits if_splits)

text \<open>
  Lines 219 to 224 of the full server: the trimmed content, or the fallback when that is
  missing or empty, then without tags and trimmed again.
\<close>

definition make_reply :: "completion \<Rightarrow> jsstring" where
  "make_reply c =
     (let reply = (case map_option trim (first_content c) of
                     None \<Rightarrow> fallback_reply
                   | Some t \<Rightarrow> if t = [] then fallback_reply else t)
      in trim (remove_tags reply))"

text \<open>
  What the handler takes from outside: the system prompt, which is the value of the
  template literal over the knowledge base or the exception its evaluation throws, and
  the upstream call \<open>openai.chat.completions.create\<close>, given the system prompt and the
  user's message.
\<close>

record env =
  systemPrompt :: "exn + jsstring"
  create :: "jsstring \<Rightarrow> jsstring \<Rightarrow> exn + completion"


text \<open>
  The outcome of a handler: the state of \<open>res\<close> when it is done, and the exception that
  escaped it, if one did.
\<close>

type_synonym outcome = "exn option \<times> res"

text \<open>The \<open>catch\<close> block of the chat route: it logs, then answers 500.\<close>

definition chat_catch :: "exn \<Rightarrow> res \<Rightarrow> outcome" where
  "chat_catch error r = res_json [(''reply'', degradation_reply)] (res_status 500 r)"

text \<open>
  The \<open>try\<close> block of the chat route in the full server, from the destructuring of
  \<open>req.body\<close> on; it calls \<open>res.json\<close> twice on success (lines 227 and 231).
\<close>

definition chat_try :: "env \<Rightarrow> json option \<Rightarrow> res \<Rightarrow> outcome" where
  "chat_try E req_body r =
     (case destructure_message req_body of
        Inl x \<Rightarrow> (Some x, r)
      | Inr msg \<Rightarrow>
     (case check_message msg of
        Inl x \<Rightarrow> (Some x, r)
      | Inr None \<Rightarrow> res_json [(''reply'', validation_reply)] (res_status 400 r)
      | Inr (Some m) \<Rightarrow>
          (case systemPrompt E of
             Inl x \<Rightarrow> (Some x, r)
           | Inr prompt \<Rightarrow>
               (case create E prompt m of
                  Inl x \<Rightarrow> (Some x, r)
                | Inr c \<Rightarrow>
                    (let reply = make_reply c
                     in case res_json [(''reply'', reply)] r of
                          (Some x, r1) \<Rightarrow> (Some x, r1)
                        | (None, r1) \<Rightarrow> res_json [(''reply'', reply)] r1)))))"

definition chat :: "env \<Rightarrow> json option \<Rightarrow> outcome" where
  "chat E req_body =
     (case chat_try E req_body new_res of
        (Some error, r) \<Rightarrow> chat_catch error r
      | (None, r) \<Rightarrow> (None, r))"

text \<open>The chat route of \<open>src/server.js\<close>, which answers once.\<close>

definition chat_try_v1 :: "env \<Rightarrow> json option \<Rightarrow> res \<Rightarrow> outcome" where
  "chat_try_v1 E req_body r =
     (case destructure_message req_body of
        Inl x \<Rightarrow> (Some x, r)
      | Inr msg \<Rightarrow>
     (case check_message msg of
        Inl x \<Rightarrow> (Some x, r)
      | Inr None \<Rightarrow> res_json [(''reply'', validation_reply)] (res_status 400 r)
      | Inr (Some m) \<Rightarrow>
          (case systemPrompt E of
             Inl x \<Rightarrow> (Some x, r)
           | Inr prompt \<Rightarrow>
               (case create E prompt m of
                  Inl x \<Rightarrow> (Some x, r)
                | Inr c \<Rightarrow> res_json [(''reply'', make_reply c)] r))))"

definition chat_v1 :: "env \<Rightarrow> json option \<Rightarrow> outcome" where
  "chat_v1 E req_body =
     (case chat_try_v1 E req_body new_res of
        (Some error, r) \<Rightarrow> chat_catch error r
      | (None, r) \<Rightarrow> (None, r))"

text \<open>What the client received.\<close>

definition received :: "outcome \<Rightarrow> response option" where
  "received out = wire (snd out)"

section \<open>Numbers as text\<close>

text \<open>
  \<open>Number.prototype.toFixed(2)\<close> on a number of magnitude below \<open>10 ^ 21\<close>: the integer
  \<open>n\<close> with \<open>n / 100\<close> nearest to the number, the larger one of two, is written with a
  point before its last two digits. JavaScript computes \<open>n\<close> from the exact value of the
  double, which a rational holds.
\<close>

definition digit :: "nat \<Rightarrow> 16 word" where
  "digit d = of_nat (0x30 + d)"

fun decimal :: "nat \<Rightarrow> jsstring" where
  "decimal n = (if n < 10 then [digit n] else decimal (n div 10) @ [digit (n mod 10)])"

declare decimal.simps [simp del]

definition hundredths :: "rat \<Rightarrow> nat" where
  "hundredths x = nat \<lfloor>\<bar>x\<bar> * 100 + 1 / 2\<rfloor>"

definition toFixed2 :: "rat \<Rightarrow> jsstring" where
  "toFixed2 x =
     (let n = hundredths x
      in (if x < 0 then lit ''-'' else []) @
         decimal (n div 100) @ lit ''.'' @ [digit (n mod 100 div 10), digit (n mod 10)])"

section \<open>Upload speed test\<close>

text \<open>
  The route \<open>POST /api/speedtest/upload\<close>: lines 290 to 312 of the full server
  (\<open>src/unnamed/part_000\<close>) and lines 105 to 124 of \<open>src/server.js\<close>, which differ in
  what they log only. What the request stream emits after the handler has returned: \<open>data\<close> with a chunk,
  \<open>end\<close> when the body is complete, or the failure of the transport (\<open>aborted\<close>, \<open>error\<close>,
  \<open>close\<close> with no \<open>end\<close>). The handler listens to \<open>data\<close> and \<open>end\<close> only. After \<open>end\<close> or
  a failure the stream emits nothing more.
\<close>

datatype event = Data "8 word list" | End | Aborted

definition on_data :: "8 word list \<Rightarrow> 8 word list list \<Rightarrow> 8 word list list" where
  "on_data chunk chunks = chunks @ [chunk]"

definition on_end :: "8 word list list \<Rightarrow> res \<Rightarrow> outcome" where
  "on_end chunks r =
     (let totalBytes = length (concat chunks)
      in res_json [(''status'', lit ''ok''),
                   (''receivedMB'', toFixed2 (of_nat totalBytes / (1024 * 1024)))] r)"

fun emit :: "event list \<Rightarrow> 8 word list list \<Rightarrow> res \<Rightarrow> outcome" where
  "emit [] chunks r = (None, r)"
| "emit (Data chunk # evs) chunks r = emit evs (on_data chunk chunks) r"
| "emit (End # evs) chunks r = on_end chunks r"
| "emit (Aborted # evs) chunks r = (None, r)"

text \<open>
  The \<open>try\<close> block computes the size hint and registers the two listeners. It yields the
  exception thrown, if any, and the array \<open>chunks\<close>. When \<open>parseInt\<close> throws, no listener
  is registered and the \<open>catch\<close> block answers 500 at once.
\<close>

definition upload_try :: "qval option \<Rightarrow> exn option \<times> 8 word list list" where
  "upload_try q =
     (case parseInt q of
        Inl x \<Rightarrow> (Some x, [])
      | Inr parsed \<Rightarrow>
          (let sizeMB = min (max (or_default parsed 10) 1) 100;
               chunks = []
           in (None, chunks)))"

definition upload :: "qval option \<Rightarrow> event list \<Rightarrow> outcome" where
  "upload q evs =
     (case upload_try q of
        (Some err, _) \<Rightarrow> res_json [(''error'', lit ''Upload test failed'')] (res_status 500 new_res)
      | (None, chunks) \<Rightarrow> emit evs chunks new_res)"

text \<open>A body that arrives whole: its chunks, then \<open>end\<close>.\<close>

definition complete_body :: "8 word list list \<Rightarrow> event list" where
  "complete_body cs = map Data cs @ [End]"

text \<open>
  \<open>app.use(express.json())\<close> runs before every route (line 157 of the full server, line
  19 of \<open>src/server.js\<close>). A request with a JSON content type has its body read to the end
  by this middleware before the route is called: the handler then attaches its listeners
  to a stream that has ended and emits nothing more. Any other request reaches the
  handler with its stream untouched. A request of the upload route, as far as it reaches
  the handler: whether the middleware has consumed the body, the \<open>size\<close> parameter, and
  what the request stream emits.
\<close>

record upload_request =
  json_consumed :: bool
  size_param :: "qval option"
  stream :: "event list"

definition upload_route :: "upload_request \<Rightarrow> outcome" where
  "upload_route req = upload (size_param req) (if json_consumed req then [] else stream req)"

section \<open>Ping\<close>

text \<open>
  JavaScript numbers are IEEE 754 doubles. A finite double is a rational, and \<open>*\<close> and \<open>+\<close>
  give the exact result rounded to the nearest double, ties to the even significand:
  \<open>round_double\<close>, for results below the overflow threshold. \<open>ilog2 x\<close> is the exponent
  \<open>e\<close> with \<open>2 ^ e \<le> x < 2 ^ (e + 1)\<close>; doubles with exponent \<open>e\<close> are \<open>2 ^ (e - 52)\<close>
  apart, and \<open>2 ^ - 1074\<close> apart below \<open>2 ^ - 1022\<close>.
\<close>

definition pow2 :: "int \<Rightarrow> rat" where
  "pow2 e = (if 0 \<le> e then 2 ^ nat e else 1 / 2 ^ nat (- e))"

function ilog2 :: "rat \<Rightarrow> int" where
  "ilog2 x =
     (if x \<le> 0 then 0
      else if 2 \<le> x then ilog2 (x / 2) + 1
      else if x < 1 then ilog2 (x * 2) - 1
      else 0)"
  by pat_completeness auto
termination
proof (relation "measure (\<lambda>x. nat \<lfloor>x\<rfloor> + 2 * nat \<lceil>1 / x\<rceil>)", goal_cases)
  case 1
  show ?case by simp
next
  case (2 x)
  then have "\<lfloor>x / 2\<rfloor> < \<lfloor>x\<rfloor>" and "\<lceil>1 / (x / 2)\<rceil> = 1" and "\<lceil>1 / x\<rceil> = 1"
    by (simp_all add: floor_less_iff le_floor_iff ceiling_eq_iff field_simps) linarith+
  moreover from 2 have "0 < \<lfloor>x\<rfloor>"
    by (simp add: less_floor_iff)
  ultimately show ?case
    by simp
next
  case (3 x)
  then have x: "0 < x" "x < 1"
    by simp_all
  then have fl: "\<lfloor>x * 2\<rfloor> \<le> 1" "\<lfloor>x\<rfloor> = 0"
    by (simp_all add: floor_le_iff floor_eq_iff)
  define y where "y = 1 / x"
  from x have y: "1 < y"
    by (simp add: y_def field_simps)
  then have "2 \<le> \<lceil>y\<rceil>"
    by (simp add: le_ceiling_iff)
  then have a: "(2::rat) \<le> of_int \<lceil>y\<rceil>"
    by (metis of_int_le_iff of_int_numeral)
  have b: "y \<le> of_int \<lceil>y\<rceil>"
    by (rule le_of_int_ceiling)
  from a b have "y / 2 \<le> of_int \<lceil>y\<rceil> - 1"
    by linarith
  then have "y / 2 \<le> of_int (\<lceil>y\<rceil> - 1)"
    by simp
  then have "\<lceil>y / 2\<rceil> \<le> \<lceil>y\<rceil> - 1"
    by (simp only: ceiling_le_iff)
  then have c: "\<lceil>1 / (x * 2)\<rceil> < \<lceil>1 / x\<rceil>"
    by (simp add: y_def)
  from x have "0 < \<lceil>1 / x\<rceil>"
    by simp
  with c fl show ?case
    unfolding in_measure by linarith
qed

declare ilog2.simps [simp del]

definition round_half_even :: "rat \<Rightarrow> int" where
  "round_half_even x =
     (let f = \<lfloor>x\<rfloor>; d = x - of_int f
      in if d < 1 / 2 then f
         else if 1 / 2 < d then f + 1
         else if even f then f else f + 1)"

definition round_double :: "rat \<Rightarrow> rat" where
  "round_double x =
     (if x = 0 then 0
      else let ulp = pow2 (max (ilog2 \<bar>x\<bar>) (- 1022) - 52)
           in sgn x * of_int (round_half_even (\<bar>x\<bar> / ulp)) * ulp)"

text \<open>
  The route \<open>GET /api/speedtest/ping\<close> (lines 318 to 327 of the full server), given the
  value \<open>Math.random()\<close> returns. \<open>delay\<close> is the time passed to \<open>setTimeout\<close>.
\<close>

record ping_result =
  delay :: rat
  answer :: outcome

definition ping :: "rat \<Rightarrow> ping_result" where
  "ping random =
     (let simulatedLatency = round_double (round_double (random * 50) + 10)
      in \<lparr>delay = simulatedLatency,
          answer = res_json [(''message'', lit ''pong''),
                             (''latency'', toFixed2 simulatedLatency)] new_res\<rparr>)"

section \<open>Properties of the download stream\<close>

lemma read_None_iff: "fst (read totalBytes st) = None \<longleftrightarrow> totalBytes \<le> sent st"
  by (simp add: read_def randomBytes_def)

lemma read_Some:
  assumes "read totalBytes st = (Some chunk, st')"
  shows "sent st < totalBytes"
    and "length chunk = min chunkSize (totalBytes - sent st)"
    and "sent st' = sent st + length chunk"
  using assms by (auto simp: read_def randomBytes_def split: if_splits)

lemma read_None:
  assumes "read totalBytes st = (None, st')"
  shows "totalBytes \<le> sent st" and "st' = st"
  using assms by (auto simp: read_def randomBytes_def split: if_splits)

lemma read_keeps_bound:
  assumes "sent st \<le> totalBytes" and "read totalBytes st = (p, st')"
  shows "sent st' \<le> totalBytes"
proof (cases p)
  case None
  with assms(2) have "st' = st" by (auto dest: read_None(2))
  with assms(1) show ?thesis by simp
next
  case (Some chunk)
  with assms(2) have rs: "read totalBytes st = (Some chunk, st')"
    by simp
  have "sent st' = sent st + min chunkSize (totalBytes - sent st)"
    using read_Some(2,3) [OF rs] by simp
  with assms(1) show ?thesis by simp
qed

lemma reachable_sent_le: "reachable totalBytes e st \<Longrightarrow> sent st \<le> totalBytes"
proof (induction rule: reachable.induct)
  case init
  show ?case by simp
next
  case (step st p st')
  then show ?case by (blast intro: read_keeps_bound)
qed

lemma length_concat_pipe:
  "sent st \<le> totalBytes \<Longrightarrow> length (concat (pipe totalBytes st)) = totalBytes - sent st"
proof (induction totalBytes st rule: pipe.induct)
  case (1 totalBytes st)
  obtain p st' where r: "read totalBytes st = (p, st')"
    by (cases "read totalBytes st")
  show ?case
  proof (cases p)
    case None
    with r have "totalBytes \<le> sent st"
      by (auto dest: read_None(1))
    with None r "1.prems" show ?thesis
      by (simp add: pipe.simps [of totalBytes st])
  next
    case (Some chunk)
    with r have rs: "read totalBytes st = (Some chunk, st')"
      by simp
    have le: "sent st' \<le> totalBytes"
      using "1.prems" r by (rule read_keeps_bound)
    have "length (concat (pipe totalBytes st')) = totalBytes - sent st'"
      using "1.IH" [OF rs [symmetric] refl le] .
    with rs read_Some [OF rs] show ?thesis
      by (simp add: pipe.simps [of totalBytes st])
  qed
qed

lemma butlast_pipe_full:
  "chunk \<in> set (butlast (pipe totalBytes st)) \<Longrightarrow> length chunk = chunkSize"
proof (induction totalBytes st rule: pipe.induct)
  case (1 totalBytes st)
  obtain p st' where r: "read totalBytes st = (p, st')"
    by (cases "read totalBytes st")
  show ?case
  proof (cases p)
    case None
    with r "1.prems" show ?thesis
      by (simp add: pipe.simps [of totalBytes st])
  next
    case (Some c)
    with r have rs: "read totalBytes st = (Some c, st')"
      by simp
    show ?thesis
    proof (cases "pipe totalBytes st' = []")
      case True
      with rs "1.prems" show ?thesis
        by (simp add: pipe.simps [of totalBytes st])
    next
      case False
      then have more: "sent st' < totalBytes"
        by (auto simp: pipe.simps [of totalBytes st'] read_def split: if_splits)
      with read_Some [OF rs] have full: "length c = chunkSize"
        by (simp add: min_def split: if_splits)
      from rs False "1.prems" have "chunk = c \<or> chunk \<in> set (butlast (pipe totalBytes st'))"
        by (simp add: pipe.simps [of totalBytes st])
      with full "1.IH" [OF rs [symmetric] refl] show ?thesis
        by blast
    qed
  qed
qed


lemma download_length:
  assumes "download_totalBytes q = Inr totalBytes"
  shows "\<exists>resp. download q e = Inr resp \<and> length (concat (dl_body resp)) = totalBytes"
  using assms by (simp add: download_def length_concat_pipe)

lemmas parse_defs =
  parseInt_def parseInt_string_def toString_def lit_def trimStart_def is_ws_def is_digit_def
  digit_val_def digits_value_def

lemma parseInt_absent: "parseInt None = Inr None"
  by (simp add: parse_defs)

lemma parseInt_0: "parseInt (Some (QString (lit ''0''))) = Inr (Some 0)"
  by (simp add: parse_defs)

lemma parseInt_1: "parseInt (Some (QString (lit ''1''))) = Inr (Some 1)"
  by (simp add: parse_defs)

lemma parseInt_3: "parseInt (Some (QString (lit ''3''))) = Inr (Some 3)"
  by (simp add: parse_defs)

lemma parseInt_10: "parseInt (Some (QString (lit ''10''))) = Inr (Some 10)"
  by (simp add: parse_defs)

lemma parseInt_500: "parseInt (Some (QString (lit ''500''))) = Inr (Some 500)"
  by (simp add: parse_defs)

lemma parseInt_minus5: "parseInt (Some (QString (lit ''-5''))) = Inr (Some (- 5))"
  by (simp add: parse_defs)

lemma parseInt_abc: "parseInt (Some (QString (lit ''abc''))) = Inr None"
  by (simp add: parse_defs)

lemma parseInt_own_toString:
  "parseInt (Some (QObject [(lit ''toString'', QString (lit ''1''))])) = Inl TypeError"
  by (simp add: parseInt_def toString_def)

lemma totalBytes_of_parsed:
  assumes "parseInt q = Inr parsed"
  shows "download_sizeMB q = Inr (min (max (or_default parsed 50) 1) 200)"
    and "download_totalBytes q = Inr (nat (min (max (or_default parsed 50) 1) 200 * 1024 * 1024))"
  using assms by (simp_all add: download_totalBytes_def download_sizeMB_def)

text \<open>
  Claim C1. When \<open>parseInt\<close> of the \<open>size\<close> parameter is a number \<open>n\<close> in \<open>[1, 200]\<close>, the
  body of the download response is exactly \<open>n * 1048576\<close> bytes long, and in every state
  the generator reaches the counter \<open>sent\<close> is at most \<open>totalBytes\<close>.
\<close>

theorem download_exact_length:
  assumes "parseInt q = Inr (Some n)" and "1 \<le> n" and "n \<le> 200"
  shows "download_totalBytes q = Inr (nat n * 1048576) \<and>
         (\<exists>resp. download q e = Inr resp \<and>
            length (concat (dl_body resp)) = nat n * 1048576) \<and>
         (\<forall>st. reachable (nat n * 1048576) e st \<longrightarrow> sent st \<le> nat n * 1048576)"
proof -
  from assms(2,3) have "min (max (or_default (Some n) 50) 1) 200 = n"
    by (simp add: or_default_def)
  with totalBytes_of_parsed(2) [OF assms(1)] assms(2)
  have t: "download_totalBytes q = Inr (nat n * 1048576)"
    by (simp add: nat_mult_distrib)
  from t download_length [OF t] show ?thesis
    by (simp add: reachable_sent_le)
qed

theorem download_exact_length_witness:
  "parseInt (Some (QString (lit ''3''))) = Inr (Some 3) \<and>
   download (Some (QString (lit ''3''))) (sconst 0) =
     Inr \<lparr>dl_headers = [(''Content-Type'', ''application/octet-stream''),
                        (''Cache-Control'', ''no-store'')],
          dl_body = pipe 3145728 \<lparr>sent = 0, rng = sconst 0\<rparr>\<rparr> \<and>
   length (concat (pipe 3145728 \<lparr>sent = 0, rng = sconst 0\<rparr>)) = 3145728 \<and>
   reachable 3145728 (sconst 0) \<lparr>sent = 0, rng = sconst 0\<rparr> \<and>
   sent \<lparr>sent = 0, rng = sconst 0\<rparr> \<le> 3145728"
proof -
  have "(1 :: int) \<le> 3" and "(3 :: int) \<le> 200"
    by simp_all
  from download_exact_length [OF parseInt_3 this, of "sconst 0"]
  show ?thesis
    by (auto simp: parseInt_3 download_def reachable.init)
qed

text \<open>
  Claim C6. From a state the generator reaches, \<open>read()\<close> signals the end of the stream
  exactly when \<open>totalBytes - sent\<close> is zero, and otherwise pushes a chunk of exactly
  \<open>min(131072, totalBytes - sent)\<close> bytes and adds its length to \<open>sent\<close>; every chunk of the
  body but the last is exactly 131072 bytes long.
\<close>

theorem read_chunking:
  assumes "reachable totalBytes e st" and "read totalBytes st = (p, st')"
  shows "(p = None \<longleftrightarrow> int totalBytes - int (sent st) = 0) \<and>
         (\<forall>chunk. p = Some chunk \<longrightarrow>
            int (length chunk) = min 131072 (int totalBytes - int (sent st)) \<and>
            sent st' = sent st + length chunk) \<and>
         (\<forall>chunk \<in> set (butlast (pipe totalBytes \<lparr>sent = 0, rng = e\<rparr>)). length chunk = 131072)"
proof -
  from assms(1) have le: "sent st \<le> totalBytes"
    by (rule reachable_sent_le)
  from assms(2) have "p = None \<longleftrightarrow> totalBytes \<le> sent st"
    using read_None_iff [of totalBytes st] by simp
  with le have 1: "p = None \<longleftrightarrow> int totalBytes - int (sent st) = 0"
    by auto
  have 2: "int (length chunk) = min 131072 (int totalBytes - int (sent st)) \<and>
           sent st' = sent st + length chunk" if "p = Some chunk" for chunk
  proof -
    from that assms(2) have rs: "read totalBytes st = (Some chunk, st')"
      by simp
    from read_Some [OF rs] le show ?thesis
      by (auto simp: chunkSize_def min_def)
  qed
  have 3: "length chunk = 131072" if "chunk \<in> set (butlast (pipe totalBytes \<lparr>sent = 0, rng = e\<rparr>))" for chunk
    using butlast_pipe_full [OF that] by (simp add: chunkSize_def)
  from 1 2 3 show ?thesis
    by blast
qed


theorem read_chunking_witness:
  "reachable 1048576 (sconst 0) \<lparr>sent = 0, rng = sconst 0\<rparr> \<and>
   fst (read 1048576 \<lparr>sent = 0, rng = sconst 0\<rparr>) = Some (stake 131072 (sconst 0)) \<and>
   int (length (stake 131072 (sconst 0 :: entropy))) = min 131072 (1048576 - 0) \<and>
   stake 131072 (sconst 0) \<in> set (butlast (pipe 1048576 \<lparr>sent = 0, rng = sconst 0\<rparr>)) \<and>
   length (stake 131072 (sconst 0 :: entropy)) = 131072"
proof -
  let ?e = "sconst 0 :: entropy"
  let ?st0 = "\<lparr>sent = 0, rng = ?e\<rparr>"
  let ?st1 = "\<lparr>sent = 131072, rng = sdrop 131072 ?e\<rparr>"
  let ?st2 = "\<lparr>sent = 262144, rng = sdrop 131072 (sdrop 131072 ?e)\<rparr>"
  have r0: "read 1048576 ?st0 = (Some (stake 131072 ?e), ?st1)"
    by (simp add: read_def randomBytes_def chunkSize_def)
  have r1: "read 1048576 ?st1 = (Some (stake 131072 (sdrop 131072 ?e)), ?st2)"
    by (simp add: read_def randomBytes_def chunkSize_def)
  have p: "pipe 1048576 ?st0 = stake 131072 ?e # stake 131072 (sdrop 131072 ?e) # pipe 1048576 ?st2"
    by (subst pipe.simps, simp only: r0 prod.case option.case, subst pipe.simps,
        simp only: r1 prod.case option.case)
  have mem: "stake 131072 ?e \<in> set (butlast (pipe 1048576 ?st0))"
    by (simp only: p butlast.simps list.simps if_False list.set insertI1)
  from read_chunking [OF reachable.init r0] mem r0 reachable.init [of 1048576 ?e]
  show ?thesis
    by simp
qed

text \<open>
  Claim C2 says that \<open>size=0\<close> yields 1 MB. The parsed value 0 is falsy, so the default of
  50 MB is served.
\<close>

theorem download_clamp_counterexample:
  "parseInt (Some (QString (lit ''0''))) = Inr (Some 0) \<and>
   download_sizeMB (Some (QString (lit ''0''))) = Inr 50 \<and>
   download_sizeMB (Some (QString (lit ''0''))) \<noteq> Inr 1 \<and>
   download (Some (QString (lit ''0''))) (sconst 0) =
     Inr \<lparr>dl_headers = [(''Content-Type'', ''application/octet-stream''),
                        (''Cache-Control'', ''no-store'')],
          dl_body = pipe 52428800 \<lparr>sent = 0, rng = sconst 0\<rparr>\<rparr> \<and>
   length (concat (pipe 52428800 \<lparr>sent = 0, rng = sconst 0\<rparr>)) = 52428800 \<and>
   length (concat (pipe 52428800 \<lparr>sent = 0, rng = sconst 0\<rparr>)) \<noteq> 1 * 1048576"
  by (simp add: parseInt_0 download_def totalBytes_of_parsed [OF parseInt_0] or_default_def
      length_concat_pipe)

text \<open>
  Claim C2, amended. When the parsed value of \<open>size\<close> is not zero and lies outside
  \<open>[1, 200]\<close>, the served size is the nearest bound: 1 MB below 1, 200 MB above 200; in
  particular \<open>size=500\<close> yields 200 MB and \<open>size=-5\<close> yields 1 MB. When \<open>size\<close> is absent,
  50 MB are served.
\<close>

theorem download_clamp:
  "(\<forall>n. parseInt q = Inr (Some n) \<and> n \<noteq> 0 \<and> (n < 1 \<or> 200 < n) \<longrightarrow>
      download_sizeMB q = Inr (if n < 1 then 1 else 200) \<and>
      (\<exists>resp. download q e = Inr resp \<and>
         length (concat (dl_body resp)) = (if n < 1 then 1 else 200) * 1048576)) \<and>
   (\<exists>resp. download (Some (QString (lit ''500''))) e = Inr resp \<and>
      length (concat (dl_body resp)) = 200 * 1048576) \<and>
   (\<exists>resp. download (Some (QString (lit ''-5''))) e = Inr resp \<and>
      length (concat (dl_body resp)) = 1 * 1048576) \<and>
   (\<exists>resp. download None e = Inr resp \<and>
      length (concat (dl_body resp)) = 50 * 1048576)"
proof (intro conjI allI impI)
  fix n
  assume a: "parseInt q = Inr (Some n) \<and> n \<noteq> 0 \<and> (n < 1 \<or> 200 < n)"
  then have p: "parseInt q = Inr (Some n)"
    by simp
  from a have m: "min (max (or_default (Some n) 50) 1) 200 = (if n < 1 then 1 else 200)"
    by (auto simp: or_default_def)
  from totalBytes_of_parsed(1) [OF p] m
  show "download_sizeMB q = Inr (if n < 1 then 1 else 200)"
    by simp
  from totalBytes_of_parsed(2) [OF p] m
  have "download_totalBytes q = Inr ((if n < 1 then 1 else 200) * 1048576)"
    by simp
  then show "\<exists>resp. download q e = Inr resp \<and>
         length (concat (dl_body resp)) = (if n < 1 then 1 else 200) * 1048576"
    by (rule download_length)
next
  have "download_totalBytes (Some (QString (lit ''500''))) = Inr (200 * 1048576)"
    by (simp add: totalBytes_of_parsed(2) [OF parseInt_500] or_default_def)
  then show "\<exists>resp. download (Some (QString (lit ''500''))) e = Inr resp \<and>
      length (concat (dl_body resp)) = 200 * 1048576"
    by (rule download_length)
next
  have "download_totalBytes (Some (QString (lit ''-5''))) = Inr (1 * 1048576)"
    by (simp add: totalBytes_of_parsed(2) [OF parseInt_minus5] or_default_def)
  then show "\<exists>resp. download (Some (QString (lit ''-5''))) e = Inr resp \<and>
      length (concat (dl_body resp)) = 1 * 1048576"
    by (rule download_length)
next
  have "download_totalBytes None = Inr (50 * 1048576)"
    by (simp add: totalBytes_of_parsed(2) [OF parseInt_absent] or_default_def)
  then show "\<exists>resp. download None e = Inr resp \<and>
      length (concat (dl_body resp)) = 50 * 1048576"
    by (rule download_length)
qed

theorem download_clamp_witness:
  "parseInt (Some (QString (lit ''500''))) = Inr (Some 500) \<and> (500::int) \<noteq> 0 \<and>
   ((500::int) < 1 \<or> (200::int) < 500) \<and>
   download_sizeMB (Some (QString (lit ''500''))) = Inr 200 \<and>
   download (Some (QString (lit ''500''))) (sconst 0) =
     Inr \<lparr>dl_headers = [(''Content-Type'', ''application/octet-stream''),
                        (''Cache-Control'', ''no-store'')],
          dl_body = pipe 209715200 \<lparr>sent = 0, rng = sconst 0\<rparr>\<rparr> \<and>
   length (concat (pipe 209715200 \<lparr>sent = 0, rng = sconst 0\<rparr>)) = 200 * 1048576"
  using download_clamp [of "Some (QString (lit ''500''))" "sconst 0"]
  by (auto simp: parseInt_500 download_def download_totalBytes_def)

text \<open>
  Claim C9. When the \<open>size\<close> parameter is absent, when \<open>parseInt\<close> of it is NaN, or when
  it is the string \<open>0\<close>, the served size is the default of 50 MB: the body is 52428800
  bytes long.
\<close>

theorem download_default:
  assumes "q = None \<or> parseInt q = Inr None \<or> q = Some (QString (lit ''0''))"
  shows "download_sizeMB q = Inr 50 \<and>
         (\<exists>resp. download q e = Inr resp \<and> length (concat (dl_body resp)) = 52428800)"
proof -
  from assms have "parseInt q = Inr None \<or> parseInt q = Inr (Some 0)"
    using parseInt_absent parseInt_0 by auto
  then obtain parsed where p: "parseInt q = Inr parsed" and d: "or_default parsed 50 = 50"
    by (auto simp: or_default_def)
  from totalBytes_of_parsed(1) [OF p] d have s: "download_sizeMB q = Inr 50"
    by simp
  from totalBytes_of_parsed(2) [OF p] d have "download_totalBytes q = Inr 52428800"
    by simp
  from s download_length [OF this] show ?thesis
    by simp
qed

theorem download_default_witness:
  "parseInt (Some (QString (lit ''abc''))) = Inr None \<and>
   download_sizeMB (Some (QString (lit ''abc''))) = Inr 50 \<and>
   download (Some (QString (lit ''abc''))) (sconst 0) =
     Inr \<lparr>dl_headers = [(''Content-Type'', ''application/octet-stream''),
                        (''Cache-Control'', ''no-store'')],
          dl_body = pipe 52428800 \<lparr>sent = 0, rng = sconst 0\<rparr>\<rparr> \<and>
   download (Some (QString (lit ''0''))) (sconst 0) =
     download (Some (QString (lit ''abc''))) (sconst 0) \<and>
   download None (sconst 0) = download (Some (QString (lit ''abc''))) (sconst 0) \<and>
   length (concat (pipe 52428800 \<lparr>sent = 0, rng = sconst 0\<rparr>)) = 52428800"
  using download_default [of "Some (QString (lit ''abc''))" "sconst 0"]
    download_default [of "Some (QString (lit ''0''))" "sconst 0"]
    download_default [of None "sconst 0"]
  by (auto simp: parseInt_abc download_def download_totalBytes_def)

section \<open>Properties of the chat route\<close>

lemma trim_all_ws:
  assumes "\<forall>c \<in> set s. is_ws c"
  shows "trim s = []"
  using assms by (auto simp: trim_def trimEnd_def trimStart_def dest: set_dropWhileD)

lemma trim_not_empty:
  assumes "\<exists>c \<in> set s. \<not> is_ws c"
  shows "trim s \<noteq> []"
proof -
  let ?t = "dropWhile is_ws s"
  from assms have ne: "?t \<noteq> []"
    by simp
  then have "\<not> is_ws (hd ?t)"
    by (rule hd_dropWhile)
  moreover from ne have "hd ?t \<in> set (rev ?t)"
    by simp
  ultimately have "dropWhile is_ws (rev ?t) \<noteq> []"
    by auto
  then show ?thesis
    by (simp add: trim_def trimEnd_def trimStart_def)
qed


lemma check_message_passed:
  assumes "\<exists>c \<in> set s. \<not> is_ws c"
  shows "check_message (Some (JString s)) = Inr (Some s)"
  using assms trim_not_empty [OF assms] by auto




lemma received_completion:
  assumes "destructure_message req_body = Inr msg" and "check_message msg = Inr (Some m)"
    and "systemPrompt E = Inr prompt" and "create E prompt m = Inr c"
  shows "received (chat E req_body) =
           Some \<lparr>status = 200, body = [(''reply'', make_reply c)]\<rparr>"
    and "received (chat_v1 E req_body) =
           Some \<lparr>status = 200, body = [(''reply'', make_reply c)]\<rparr>"
  using assms
  by (simp_all add: received_def chat_def chat_v1_def chat_try_def chat_try_v1_def chat_catch_def
      res_json_def res_status_def new_res_def)

lemma fallback_clean: "trim (remove_tags fallback_reply) = fallback_reply"
  by (simp add: fallback_reply_def lit_def match_tag_def trim_def trimEnd_def trimStart_def is_ws_def)

lemma is_ws_space: "is_ws 0x20"
  by (simp add: is_ws_def)

lemma not_is_ws_h: "\<not> is_ws 0x68"
  by (simp add: is_ws_def)




text \<open>
  Claim C10 gives the fallback for missing or empty content only. Content of one space
  is neither, and its doubly trimmed form is the empty string, but the reply is the
  fallback: the test for the fallback comes after the first trim.
\<close>

theorem chat_reply_counterexample:
  "first_content (Completion (Some [Choice (Some (ChatMessage (Some [0x20])))])) = Some [0x20] \<and>
   make_reply (Completion (Some [Choice (Some (ChatMessage (Some [0x20])))])) = fallback_reply \<and>
   trim (remove_tags (trim [0x20])) = [] \<and>
   fallback_reply \<noteq> trim (remove_tags (trim [0x20]))"
proof -
  have "trim [0x20] = []"
    by (simp add: trim_all_ws is_ws_space)
  moreover have "fallback_reply \<noteq> []"
    by (simp add: fallback_reply_def)
  moreover have "trim [] = []"
    by (simp add: trim_def trimStart_def trimEnd_def)
  ultimately show ?thesis
    by (simp add: first_content_def make_reply_def fallback_clean)
qed

text \<open>
  Claim C10, amended. On a successful completion the client receives status 200 with the
  reply: the upstream content trimmed, without the tags \<open><s>\<close> and \<open></s>\<close> in either case,
  and trimmed again; when the content is missing, or empty once it is trimmed, the reply
  is the fallback string.
\<close>

theorem chat_reply:
  assumes "req_body = Some (JObject props)"
    and "map_of props (lit ''message'') = Some (JString s)"
    and "\<exists>c \<in> set s. \<not> is_ws c"
    and "systemPrompt E = Inr prompt" and "create E prompt s = Inr c"
  shows "\<exists>reply.
           received (chat E req_body) = Some \<lparr>status = 200, body = [(''reply'', reply)]\<rparr> \<and>
           received (chat_v1 E req_body) = Some \<lparr>status = 200, body = [(''reply'', reply)]\<rparr> \<and>
           reply = (case first_content c of
                      None \<Rightarrow> fallback_reply
                    | Some t \<Rightarrow> if trim t = [] then fallback_reply
                               else trim (remove_tags (trim t)))"
proof -
  from assms(1,2) have d: "destructure_message req_body = Inr (Some (JString s))"
    by simp
  from check_message_passed [OF assms(3)]
  have m: "check_message (Some (JString s)) = Inr (Some s)" .
  have "make_reply c = (case first_content c of
                      None \<Rightarrow> fallback_reply
                    | Some t \<Rightarrow> if trim t = [] then fallback_reply
                               else trim (remove_tags (trim t)))"
    by (simp add: make_reply_def fallback_clean split: option.split)
  with received_completion [OF d m assms(4,5)] show ?thesis
    by simp
qed

theorem chat_reply_witness:
  "map_of [(lit ''message'', JString [0x68, 0x69])] (lit ''message'') = Some (JString [0x68, 0x69]) \<and>
   \<not> is_ws 0x68 \<and>
   received (chat \<lparr>systemPrompt = Inr (lit ''p''),
                   create = (\<lambda>p m. Inr (Completion (Some [Choice (Some (ChatMessage (Some (lit '' <s>Hi</S> ''))))])))\<rparr>
      (Some (JObject [(lit ''message'', JString [0x68, 0x69])]))) =
     Some \<lparr>status = 200, body = [(''reply'', lit ''Hi'')]\<rparr>"
  using chat_reply [OF refl, of "[(lit ''message'', JString [0x68, 0x69])]" "[0x68, 0x69]"
      "\<lparr>systemPrompt = Inr (lit ''p''),
        create = (\<lambda>p m. Inr (Completion (Some [Choice (Some (ChatMessage (Some (lit '' <s>Hi</S> ''))))])))\<rparr>"
      "lit ''p''" "Completion (Some [Choice (Some (ChatMessage (Some (lit '' <s>Hi</S> ''))))])"]
  by (simp add: not_is_ws_h first_content_def lit_def trim_def trimStart_def trimEnd_def is_ws_def
      match_tag_def)

section \<open>Properties of the upload route\<close>

lemma emit_complete_body:
  "emit (complete_body cs) chunks r = on_end (chunks @ cs) r"
  by (induction cs arbitrary: chunks) (simp_all add: complete_body_def on_data_def)

lemma emit_aborted:
  "emit (map Data cs @ Aborted # evs) chunks r = (None, r)"
  by (induction cs arbitrary: chunks) simp_all

lemma upload_emit: "parseInt q = Inr parsed \<Longrightarrow> upload q evs = emit evs [] new_res"
  by (simp add: upload_def upload_try_def)

lemma received_upload_throws:
  "parseInt q = Inl x \<Longrightarrow>
   received (upload q evs) = Some \<lparr>status = 500, body = [(''error'', lit ''Upload test failed'')]\<rparr>"
  by (simp add: upload_def upload_try_def received_def res_json_def res_status_def new_res_def)

lemma received_on_end:
  "received (on_end chunks new_res) =
     Some \<lparr>status = 200,
           body = [(''status'', lit ''ok''),
                   (''receivedMB'', toFixed2 (of_nat (length (concat chunks)) / 1048576))]\<rparr>"
  by (simp add: received_def on_end_def res_json_def new_res_def)

lemma hundredths_nearest:
  "\<bar>of_nat (hundredths x) / 100 - \<bar>x\<bar>\<bar> \<le> 1 / 200"
proof -
  define a where "a = \<bar>x\<bar>"
  define f :: rat where "f = of_int \<lfloor>a * 100 + 1 / 2\<rfloor>"
  have "0 \<le> a"
    by (simp add: a_def)
  then have "0 \<le> \<lfloor>a * 100 + 1 / 2\<rfloor>"
    by simp
  then have h: "of_nat (hundredths x) = f"
    by (simp add: hundredths_def f_def a_def)
  have "f \<le> a * 100 + 1 / 2" and "a * 100 + 1 / 2 < f + 1"
    unfolding f_def by linarith+
  then have "\<bar>f - a * 100\<bar> \<le> 1 / 2"
    by linarith
  then have "\<bar>(f - a * 100) / 100\<bar> \<le> 1 / 200"
    by simp
  moreover have "(f - a * 100) / 100 = f / 100 - a"
    by (simp add: field_simps)
  ultimately have "\<bar>f / 100 - a\<bar> \<le> 1 / 200"
    by (simp only:)
  then show ?thesis
    unfolding h a_def .
qed

lemma floor_numeral_div:
  "\<lfloor>(numeral a :: rat) / numeral b\<rfloor> = (numeral a div numeral b :: int)"
  using floor_divide_of_int_eq [of "numeral a" "numeral b", where ?'a = rat] by simp

lemmas toFixed2_eval =
  toFixed2_def hundredths_def digit_def lit_def Let_def floor_numeral_div decimal.simps


lemma toFixed2_2MB: "toFixed2 (of_nat 2097152 / 1048576) = lit ''2.00''"
  by (simp add: toFixed2_eval)

lemma toFixed2_3B: "toFixed2 (of_nat 3 / 1048576) = lit ''0.00''"
  by (simp add: toFixed2_eval)




text \<open>
  Claim C7 says that the answer is the same whatever the \<open>size\<close> parameter. With the same
  body of three bytes, \<open>size[toString]=1\<close> is answered 500, as \<open>parseInt\<close> throws inside the
  \<open>try\<close>, and \<open>size=1\<close> is answered 200.
\<close>

theorem upload_size_advisory_counterexample:
  "received (upload_route \<lparr>json_consumed = False,
      size_param = Some (QObject [(lit ''toString'', QString (lit ''1''))]),
      stream = complete_body [[1, 2, 3]]\<rparr>) =
     Some \<lparr>status = 500, body = [(''error'', lit ''Upload test failed'')]\<rparr> \<and>
   received (upload_route \<lparr>json_consumed = False, size_param = Some (QString (lit ''1'')),
      stream = complete_body [[1, 2, 3]]\<rparr>) =
     Some \<lparr>status = 200, body = [(''status'', lit ''ok''), (''receivedMB'', lit ''0.00'')]\<rparr> \<and>
   upload_route \<lparr>json_consumed = False,
      size_param = Some (QObject [(lit ''toString'', QString (lit ''1''))]),
      stream = complete_body [[1, 2, 3]]\<rparr> \<noteq>
   upload_route \<lparr>json_consumed = False, size_param = Some (QString (lit ''1'')),
      stream = complete_body [[1, 2, 3]]\<rparr>"
proof -
  let ?bad = "upload_route \<lparr>json_consumed = False,
      size_param = Some (QObject [(lit ''toString'', QString (lit ''1''))]),
      stream = complete_body [[1, 2, 3]]\<rparr>"
  let ?good = "upload_route \<lparr>json_consumed = False, size_param = Some (QString (lit ''1'')),
      stream = complete_body [[1, 2, 3]]\<rparr>"
  have b: "received ?bad =
      Some \<lparr>status = 500, body = [(''error'', lit ''Upload test failed'')]\<rparr>"
    by (simp add: upload_route_def received_upload_throws [OF parseInt_own_toString])
  have "received ?good =
      Some \<lparr>status = 200,
            body = [(''status'', lit ''ok''),
                    (''receivedMB'', toFixed2 (of_nat (length (concat [[1, 2, 3 :: 8 word]])) / 1048576))]\<rparr>"
    by (simp only: upload_route_def upload_request.simps if_False upload_emit [OF parseInt_1]
        emit_complete_body append_Nil received_on_end)
  with toFixed2_3B have g: "received ?good =
      Some \<lparr>status = 200, body = [(''status'', lit ''ok''), (''receivedMB'', lit ''0.00'')]\<rparr>"
    by simp
  from b g have "received ?bad \<noteq> received ?good"
    by simp
  then have "?bad \<noteq> ?good"
    by auto
  with b g show ?thesis
    by blast
qed

text \<open>
  Claim C7, amended. As long as \<open>parseInt\<close> of the \<open>size\<close> parameter does not throw (the
  parameter is absent, a string, or an array or object that converts to a string), the
  parameter changes nothing: two such requests with the same events answer the same,
  the answer to a whole body depends on the number of bytes received only, and bytes
  beyond the hint are counted (a hint of 1 MB with 2 MB received reports \<open>"2.00"\<close>).
\<close>

theorem upload_size_advisory:
  assumes "parseInt q1 = Inr parsed1" and "parseInt q2 = Inr parsed2"
  shows
  "upload_route \<lparr>json_consumed = consumed, size_param = q1, stream = evs\<rparr> =
   upload_route \<lparr>json_consumed = consumed, size_param = q2, stream = evs\<rparr> \<and>
   upload q1 evs = upload q2 evs \<and>
   (length (concat cs1) = length (concat cs2) \<longrightarrow>
      received (upload q1 (complete_body cs1)) = received (upload q2 (complete_body cs2))) \<and>
   (parseInt q1 = Inr (Some 1) \<and> length (concat cs) = 2 * 1048576 \<longrightarrow>
      received (upload q1 (complete_body cs)) =
        Some \<lparr>status = 200, body = [(''status'', lit ''ok''), (''receivedMB'', lit ''2.00'')]\<rparr>)"
proof (intro conjI impI)
  show "upload_route \<lparr>json_consumed = consumed, size_param = q1, stream = evs\<rparr> =
   upload_route \<lparr>json_consumed = consumed, size_param = q2, stream = evs\<rparr>"
    by (simp add: upload_route_def upload_emit [OF assms(1)] upload_emit [OF assms(2)])
next
  show "upload q1 evs = upload q2 evs"
    by (simp add: upload_emit [OF assms(1)] upload_emit [OF assms(2)])
next
  assume "length (concat cs1) = length (concat cs2)"
  then show "received (upload q1 (complete_body cs1)) = received (upload q2 (complete_body cs2))"
    by (simp only: upload_emit [OF assms(1)] upload_emit [OF assms(2)] emit_complete_body
        append_Nil received_on_end)
next
  assume "parseInt q1 = Inr (Some 1) \<and> length (concat cs) = 2 * 1048576"
  with toFixed2_2MB
  show "received (upload q1 (complete_body cs)) =
        Some \<lparr>status = 200, body = [(''status'', lit ''ok''), (''receivedMB'', lit ''2.00'')]\<rparr>"
    by (simp only: upload_emit [OF assms(1)] emit_complete_body append_Nil received_on_end) simp
qed

theorem upload_size_advisory_witness:
  "parseInt (Some (QString (lit ''1''))) = Inr (Some 1) \<and> parseInt None = Inr None \<and>
   upload (Some (QString (lit ''1''))) (complete_body [replicate (2 * 1048576) 0]) =
   upload None (complete_body [replicate (2 * 1048576) 0]) \<and>
   length (concat [replicate (2 * 1048576) (0 :: 8 word)]) = 2 * 1048576 \<and>
   length (concat [[1, 2], [3 :: 8 word]]) = length (concat [[1], [2, 3 :: 8 word]]) \<and>
   received (upload (Some (QString (lit ''1''))) (complete_body [[1, 2], [3]])) =
     received (upload None (complete_body [[1], [2, 3]])) \<and>
   received (upload (Some (QString (lit ''1''))) (complete_body [replicate (2 * 1048576) 0])) =
     Some \<lparr>status = 200, body = [(''status'', lit ''ok''), (''receivedMB'', lit ''2.00'')]\<rparr>"
proof -
  let ?cs = "[replicate (2 * 1048576) (0 :: 8 word)]"
  note adv = upload_size_advisory [OF parseInt_1 parseInt_absent, of False "complete_body ?cs"
      "[[1, 2], [3]]" "[[1], [2, 3]]" ?cs]
  have len': "length (concat [[1, 2], [3 :: 8 word]]) = length (concat [[1], [2, 3 :: 8 word]])"
    by simp
  with adv have "received (upload (Some (QString (lit ''1''))) (complete_body [[1, 2], [3]])) =
     received (upload None (complete_body [[1], [2, 3]]))"
    by blast
  note chunking = this len'
  have len: "length (concat ?cs) = 2 * 1048576"
    by simp
  from adv have "upload (Some (QString (lit ''1''))) (complete_body ?cs) = upload None (complete_body ?cs)"
    by blast
  moreover from adv len parseInt_1
  have "received (upload (Some (QString (lit ''1''))) (complete_body ?cs)) =
     Some \<lparr>status = 200, body = [(''status'', lit ''ok''), (''receivedMB'', lit ''2.00'')]\<rparr>"
    by blast
  ultimately show ?thesis
    using len chunking parseInt_1 parseInt_absent by blast
qed

text \<open>
  Claim C8 does not hold of the code. When the transport fails before \<open>end\<close>, no listener
  runs and the \<open>catch\<close> block, which covers the registration of the listeners only, is
  not entered: nothing is sent, neither the failure status nor a byte count.
\<close>

theorem upload_aborted_no_response:
  "(\<forall>parsed. parseInt q = Inr parsed \<longrightarrow>
      received (upload q (map Data cs @ [Aborted])) = None) \<and>
   upload None [Data [1, 2, 3], Aborted] = (None, new_res) \<and>
   received (upload None [Data [1, 2, 3], Aborted]) \<noteq>
     Some \<lparr>status = 500, body = [(''error'', lit ''Upload test failed'')]\<rparr>"
  using emit_aborted [of cs "[]" "[]" new_res] emit_aborted [of "[[1, 2, 3]]" "[]" "[]" new_res]
  by (auto simp: upload_emit upload_emit [OF parseInt_absent] received_def new_res_def)

theorem upload_aborted_no_response_witness:
  "parseInt (Some (QString (lit ''10''))) = Inr (Some 10) \<and>
   received (upload (Some (QString (lit ''10''))) (map Data [[1, 2, 3]] @ [Aborted])) = None"
  using upload_aborted_no_response [of "Some (QString (lit ''10''))" "[[1, 2, 3]]"]
  by (simp add: parseInt_10)

section \<open>Properties of the ping route\<close>

lemma pow2_powi: "pow2 e = 2 powi e"
  by (simp add: pow2_def power_int_def inverse_eq_divide power_one_over)

lemma pow2_pos: "0 < pow2 e"
  by (simp add: pow2_powi)

lemma pow2_Suc: "pow2 (e + 1) = 2 * pow2 e"
  by (simp add: pow2_powi power_int_add_1')

lemma pow2_pred: "pow2 (e - 1) = pow2 e / 2"
  using pow2_Suc [of "e - 1"] by simp

lemma pow2_mono: "a \<le> b \<Longrightarrow> pow2 a \<le> pow2 b"
  by (simp add: pow2_powi power_int_increasing)

lemma pow2_diff:
  assumes "b \<le> a"
  shows "pow2 a = of_int (2 ^ nat (a - b)) * pow2 b"
proof -
  have "pow2 a = 2 powi ((a - b) + b)"
    by (simp add: pow2_powi)
  also have "\<dots> = 2 powi (a - b) * 2 powi b"
    by (rule power_int_add) simp
  also from assms have "2 powi (a - b) = (2::rat) ^ nat (a - b)"
    by (simp add: power_int_def)
  finally show ?thesis
    by (simp add: pow2_powi)
qed

lemma ilog2_bounds: "0 < x \<Longrightarrow> pow2 (ilog2 x) \<le> x \<and> x < pow2 (ilog2 x + 1)"
proof (induction x rule: ilog2.induct)
  case (1 x)
  show ?case
  proof (cases "2 \<le> x")
    case True
    with "1.prems" have e: "ilog2 x = ilog2 (x / 2) + 1"
      by (subst ilog2.simps) simp
    from True "1.prems" have "pow2 (ilog2 (x / 2)) \<le> x / 2 \<and> x / 2 < pow2 (ilog2 (x / 2) + 1)"
      by (intro "1.IH"(1)) simp_all
    with pow2_Suc [of "ilog2 (x / 2)"] pow2_Suc [of "ilog2 (x / 2) + 1"] show ?thesis
      unfolding e by linarith
  next
    case False
    show ?thesis
    proof (cases "x < 1")
      case True
      with False "1.prems" have e: "ilog2 x = ilog2 (x * 2) - 1"
        by (subst ilog2.simps) simp
      from True False "1.prems"
      have "pow2 (ilog2 (x * 2)) \<le> x * 2 \<and> x * 2 < pow2 (ilog2 (x * 2) + 1)"
        by (intro "1.IH"(2)) simp_all
      with pow2_pred [of "ilog2 (x * 2)"] pow2_Suc [of "ilog2 (x * 2) - 1"] pow2_Suc [of "ilog2 (x * 2)"]
      show ?thesis
        unfolding e by simp
    next
      case ge: False
      with False "1.prems" have "ilog2 x = 0"
        by (subst ilog2.simps) simp
      with ge False show ?thesis
        by (simp add: pow2_def)
    qed
  qed
qed

lemma ilog2_unique:
  assumes "pow2 e \<le> x" and "x < pow2 (e + 1)"
  shows "ilog2 x = e"
proof -
  from assms(1) pow2_pos [of e] have "0 < x"
    by simp
  then have b: "pow2 (ilog2 x) \<le> x" "x < pow2 (ilog2 x + 1)"
    using ilog2_bounds by simp_all
  have "\<not> ilog2 x < e"
  proof
    assume "ilog2 x < e"
    then have "pow2 (ilog2 x + 1) \<le> pow2 e"
      by (intro pow2_mono) simp
    with b(2) assms(1) show False
      by simp
  qed
  moreover have "\<not> e < ilog2 x"
  proof
    assume "e < ilog2 x"
    then have "pow2 (e + 1) \<le> pow2 (ilog2 x)"
      by (intro pow2_mono) simp
    with b(1) assms(2) show False
      by simp
  qed
  ultimately show ?thesis
    by simp
qed

lemma ilog2_le:
  assumes "0 < x" and "x < pow2 (e + 1)"
  shows "ilog2 x \<le> e"
proof (rule ccontr)
  assume "\<not> ilog2 x \<le> e"
  then have "pow2 (e + 1) \<le> pow2 (ilog2 x)"
    by (intro pow2_mono) simp
  with ilog2_bounds [OF assms(1)] assms(2) show False
    by simp
qed

lemma round_half_even_le:
  assumes "x \<le> of_int k"
  shows "round_half_even x \<le> k"
proof -
  from assms have f: "\<lfloor>x\<rfloor> \<le> k"
    by (simp add: floor_le_iff)
  show ?thesis
  proof (cases "\<lfloor>x\<rfloor> = k")
    case True
    with assms have "x = of_int k"
      using of_int_floor_le [of x] by simp
    then show ?thesis
      by (simp add: round_half_even_def)
  next
    case False
    with f have "\<lfloor>x\<rfloor> + 1 \<le> k"
      by simp
    then show ?thesis
      by (simp add: round_half_even_def Let_def)
  qed
qed

lemma round_half_even_below_half:
  assumes "x < of_int k + 1 / 2"
  shows "round_half_even x \<le> k"
proof -
  from assms have "x < of_int (k + 1)"
    by simp
  then have "\<lfloor>x\<rfloor> < k + 1"
    by (simp only: floor_less_iff)
  then have f: "\<lfloor>x\<rfloor> \<le> k"
    by simp
  show ?thesis
  proof (cases "\<lfloor>x\<rfloor> = k")
    case True
    with assms have "x - of_int \<lfloor>x\<rfloor> < 1 / 2"
      by simp
    with True show ?thesis
      by (simp add: round_half_even_def Let_def)
  next
    case False
    with f have "\<lfloor>x\<rfloor> + 1 \<le> k"
      by simp
    then show ?thesis
      by (simp add: round_half_even_def Let_def)
  qed
qed

lemma round_half_even_ge:
  assumes "of_int k \<le> x"
  shows "k \<le> round_half_even x"
proof -
  from assms have "k \<le> \<lfloor>x\<rfloor>"
    by (simp add: le_floor_iff)
  then show ?thesis
    by (simp add: round_half_even_def Let_def)
qed


lemma round_double_pos:
  assumes "0 < x"
  shows "round_double x =
    of_int (round_half_even (x / pow2 (max (ilog2 x) (- 1022) - 52))) *
    pow2 (max (ilog2 x) (- 1022) - 52)"
  using assms by (simp add: round_double_def Let_def)

lemma round_double_le_grid:
  assumes "0 < x" and "x \<le> of_int m * pow2 j" and "max (ilog2 x) (- 1022) - 52 \<le> j"
  shows "round_double x \<le> of_int m * pow2 j"
proof -
  define E where "E = max (ilog2 x) (- 1022) - 52"
  define K where "K = m * 2 ^ nat (j - E)"
  from assms(3) have "pow2 j = of_int (2 ^ nat (j - E)) * pow2 E"
    unfolding E_def by (rule pow2_diff)
  then have c: "of_int m * pow2 j = of_int K * pow2 E"
    by (simp add: K_def)
  with assms(2) pow2_pos [of E] have "x / pow2 E \<le> of_int K"
    by (simp add: field_simps)
  then have "round_half_even (x / pow2 E) \<le> K"
    by (rule round_half_even_le)
  then have "(of_int (round_half_even (x / pow2 E)) :: rat) \<le> of_int K"
    by (simp only: of_int_le_iff)
  with pow2_pos [of E] have "of_int (round_half_even (x / pow2 E)) * pow2 E \<le> of_int K * pow2 E"
    by (simp only: mult_le_cancel_right_pos)
  then show ?thesis
    unfolding c round_double_pos [OF assms(1)] E_def .
qed

lemma round_double_ge_grid:
  assumes "0 < x" and "of_int m * pow2 j \<le> x" and "max (ilog2 x) (- 1022) - 52 \<le> j"
  shows "of_int m * pow2 j \<le> round_double x"
proof -
  define E where "E = max (ilog2 x) (- 1022) - 52"
  define K where "K = m * 2 ^ nat (j - E)"
  from assms(3) have "pow2 j = of_int (2 ^ nat (j - E)) * pow2 E"
    unfolding E_def by (rule pow2_diff)
  then have c: "of_int m * pow2 j = of_int K * pow2 E"
    by (simp add: K_def)
  with assms(2) pow2_pos [of E] have "of_int K \<le> x / pow2 E"
    by (simp add: field_simps)
  then have "K \<le> round_half_even (x / pow2 E)"
    by (rule round_half_even_ge)
  then have "(of_int K :: rat) \<le> of_int (round_half_even (x / pow2 E))"
    by (simp only: of_int_le_iff)
  with pow2_pos [of E] have "of_int K * pow2 E \<le> of_int (round_half_even (x / pow2 E)) * pow2 E"
    by (simp only: mult_le_cancel_right_pos)
  then show ?thesis
    unfolding c round_double_pos [OF assms(1)] E_def .
qed

lemma round_double_below_half:
  assumes "0 < x" and "x < (of_int m + 1 / 2) * pow2 E" and "E = max (ilog2 x) (- 1022) - 52"
  shows "round_double x \<le> of_int m * pow2 E"
proof -
  from assms(2) pow2_pos [of E] have "x / pow2 E < of_int m + 1 / 2"
    by (simp add: field_simps)
  then have "round_half_even (x / pow2 E) \<le> m"
    by (rule round_half_even_below_half)
  then have "(of_int (round_half_even (x / pow2 E)) :: rat) \<le> of_int m"
    by (simp only: of_int_le_iff)
  with pow2_pos [of E] have "of_int (round_half_even (x / pow2 E)) * pow2 E \<le> of_int m * pow2 E"
    by (simp only: mult_le_cancel_right_pos)
  then show ?thesis
    unfolding round_double_pos [OF assms(1)] assms(3) .
qed

lemma ulp_exponent_below_64:
  assumes "0 < x" and "x < 64"
  shows "max (ilog2 x) (- 1022) - 52 \<le> - 47"
proof -
  have "pow2 (5 + 1) = 64"
    by (simp add: pow2_def)
  with assms have "ilog2 x \<le> 5"
    by (intro ilog2_le) simp_all
  then show ?thesis
    by simp
qed


lemma double_below_one:
  assumes "0 \<le> r" and "r < 1" and "round_double r = r"
  shows "r \<le> 1 - 1 / 2 ^ 53"
proof (cases "r < 1 / 2")
  case True
  then show ?thesis by simp
next
  case False
  then have pos: "0 < r"
    by simp
  from False assms(2) have "ilog2 r = - 1"
    by (intro ilog2_unique) (simp_all add: pow2_def)
  then have E: "max (ilog2 r) (- 1022) - 52 = - 53"
    by simp
  define K where "K = round_half_even (r / pow2 (- 53))"
  from round_double_pos [OF pos] assms(3) have r: "r = of_int K * pow2 (- 53)"
    unfolding E K_def by simp
  with assms(2) have "of_int K < (2 ^ 53 :: rat)"
    by (simp add: pow2_def)
  then have "(of_int K :: rat) < of_int (2 ^ 53)"
    by simp
  then have "K < 2 ^ 53"
    by (simp only: of_int_less_iff)
  then have "K \<le> 2 ^ 53 - 1"
    by simp
  then have "(of_int K :: rat) \<le> of_int (2 ^ 53 - 1)"
    by (simp only: of_int_le_iff)
  then show ?thesis
    by (subst r) (simp add: pow2_def field_simps)
qed

lemma product_bounds:
  assumes "0 \<le> r" and "r \<le> 1 - 1 / 2 ^ 53"
  shows "0 \<le> round_double (r * 50) \<and> round_double (r * 50) \<le> 50 - 1 / 2 ^ 47"
proof (cases "r = 0")
  case True
  then show ?thesis
    by (simp add: round_double_def)
next
  case False
  define x where "x = r * 50"
  from False assms have x: "0 < x" "x \<le> 50 - 50 / 2 ^ 53"
    by (simp_all add: x_def)
  then have E: "max (ilog2 x) (- 1022) - 52 \<le> - 47"
    by (intro ulp_exponent_below_64) simp_all
  have c: "of_int (50 * 2 ^ 47 - 1) * pow2 (- 47) = 50 - 1 / 2 ^ 47"
    by (simp add: pow2_def)
  have lower: "0 \<le> round_double x"
    using round_double_ge_grid [of x 0 "- 47"] x(1) E by simp
  have upper: "round_double x \<le> 50 - 1 / 2 ^ 47"
  proof (cases "x \<le> 50 - 1 / 2 ^ 47")
    case True
    with c have "x \<le> of_int (50 * 2 ^ 47 - 1) * pow2 (- 47)"
      by (simp only:)
    from round_double_le_grid [OF x(1) this E] c show ?thesis
      by (simp only:)
  next
    case False
    with x(2) have "ilog2 x = 5"
      by (intro ilog2_unique) (simp_all add: pow2_def)
    then have E': "- 47 = max (ilog2 x) (- 1022) - 52"
      by simp
    from x(2) have "x < (of_int (50 * 2 ^ 47 - 1) + 1 / 2) * pow2 (- 47)"
      by (simp add: pow2_def)
    from round_double_below_half [OF x(1) this E'] c show ?thesis
      by (simp only:)
  qed
  from lower upper show ?thesis
    by (simp add: x_def)
qed

lemma sum_bounds:
  assumes "0 \<le> p" and "p \<le> 50 - 1 / 2 ^ 47"
  shows "10 \<le> round_double (p + 10) \<and> round_double (p + 10) \<le> 60 - 1 / 2 ^ 47"
proof -
  define x where "x = p + 10"
  from assms have x: "0 < x" "10 \<le> x" "x \<le> 60 - 1 / 2 ^ 47"
    by (simp_all add: x_def)
  then have E: "max (ilog2 x) (- 1022) - 52 \<le> - 47"
    by (intro ulp_exponent_below_64) simp_all
  then have E1: "max (ilog2 x) (- 1022) - 52 \<le> 1"
    by simp
  have "of_int 5 * pow2 1 = 10"
    by (simp add: pow2_def)
  with x(2) round_double_ge_grid [OF x(1) _ E1, of 5] have lower: "10 \<le> round_double x"
    by simp
  have c: "of_int (60 * 2 ^ 47 - 1) * pow2 (- 47) = 60 - 1 / 2 ^ 47"
    by (simp add: pow2_def)
  with x(3) have "x \<le> of_int (60 * 2 ^ 47 - 1) * pow2 (- 47)"
    by (simp only:)
  from round_double_le_grid [OF x(1) this E] c have upper: "round_double x \<le> 60 - 1 / 2 ^ 47"
    by (simp only:)
  from lower upper show ?thesis
    by (simp add: x_def)
qed

lemma hundredths_bounds:
  assumes "10 \<le> d" and "d < 60"
  shows "1000 \<le> hundredths d \<and> hundredths d \<le> 6000"
proof -
  define n where "n = \<lfloor>d * 100 + 1 / 2\<rfloor>"
  from assms have a: "\<bar>d\<bar> = d"
    by simp
  from assms have "of_int 1000 \<le> d * 100 + 1 / 2"
    by simp
  then have lo: "1000 \<le> n"
    unfolding n_def by (simp only: le_floor_iff)
  from assms have "d * 100 + 1 / 2 < of_int 6001"
    by simp
  then have hi: "n < 6001"
    unfolding n_def by (simp only: floor_less_iff)
  have "hundredths d = nat n"
    by (simp add: hundredths_def a n_def)
  with lo hi show ?thesis
    by linarith
qed


lemmas round_double_eval =
  round_double_def round_half_even_def pow2_def ilog2.simps Let_def floor_numeral_div

lemma double_16383: "round_double (16383 / 16384) = 16383 / 16384"
  by (simp add: round_double_eval)

lemma delay_16383: "delay (ping (16383 / 16384)) = 491495 / 8192"
  by (simp add: ping_def round_double_eval)

lemma double_half: "round_double (1 / 2) = 1 / 2"
  by (simp add: round_double_eval)

lemma delay_half: "delay (ping (1 / 2)) = 35"
  by (simp add: ping_def round_double_eval)

lemma received_ping:
  "received (answer (ping r)) =
     Some \<lparr>status = 200,
           body = [(''message'', lit ''pong''), (''latency'', toFixed2 (delay (ping r)))]\<rparr>"
  by (simp add: ping_def Let_def received_def res_json_def new_res_def)

text \<open>
  Claim C4 says the number in the \<open>latency\<close> field is always below 60.00. When
  \<open>Math.random()\<close> returns the double \<open>16383 / 16384\<close>, the product and the sum are exact,
  the delay is \<open>59.9969482421875\<close>, below 60, and \<open>toFixed(2)\<close> rounds it up to \<open>"60.00"\<close>.
\<close>

theorem ping_latency_counterexample:
  "(0 :: rat) \<le> 16383 / 16384 \<and> (16383 / 16384 :: rat) < 1 \<and>
   round_double (16383 / 16384) = 16383 / 16384 \<and>
   delay (ping (16383 / 16384)) = 491495 / 8192 \<and>
   received (answer (ping (16383 / 16384))) =
     Some \<lparr>status = 200, body = [(''message'', lit ''pong''), (''latency'', lit ''60.00'')]\<rparr> \<and>
   hundredths (delay (ping (16383 / 16384))) = 6000 \<and>
   \<not> hundredths (delay (ping (16383 / 16384))) < 6000"
proof -
  have "toFixed2 (491495 / 8192) = lit ''60.00''"
    by (simp add: toFixed2_eval)
  moreover have "hundredths (491495 / 8192) = 6000"
    by (simp add: hundredths_def floor_numeral_div)
  ultimately show ?thesis
    by (simp add: received_ping delay_16383 double_16383)
qed

text \<open>
  Claim C4, amended. For every double \<open>r\<close> in \<open>[0, 1)\<close> that \<open>Math.random()\<close> may return,
  the delay \<open>r * 50 + 10\<close> computed in doubles lies in \<open>[10, 60)\<close>; the response has status
  200, the message \<open>pong\<close> and as latency the delay written by \<open>toFixed(2)\<close>, the nearest
  hundredth with two digits after the point, whose value lies in \<open>[10.00, 60.00]\<close>.
\<close>

theorem ping_latency:
  assumes "0 \<le> r" and "r < 1" and "round_double r = r"
  shows "10 \<le> delay (ping r) \<and> delay (ping r) < 60 \<and>
         received (answer (ping r)) =
           Some \<lparr>status = 200,
                 body = [(''message'', lit ''pong''), (''latency'', toFixed2 (delay (ping r)))]\<rparr> \<and>
         toFixed2 (delay (ping r)) =
           decimal (hundredths (delay (ping r)) div 100) @ lit ''.'' @
           [digit (hundredths (delay (ping r)) mod 100 div 10),
            digit (hundredths (delay (ping r)) mod 10)] \<and>
         \<bar>of_nat (hundredths (delay (ping r))) / 100 - delay (ping r)\<bar> \<le> 1 / 200 \<and>
         1000 \<le> hundredths (delay (ping r)) \<and> hundredths (delay (ping r)) \<le> 6000"
proof -
  define d where "d = delay (ping r)"
  have d: "d = round_double (round_double (r * 50) + 10)"
    by (simp add: d_def ping_def Let_def)
  from assms have "r \<le> 1 - 1 / 2 ^ 53"
    by (rule double_below_one)
  with assms(1) have "0 \<le> round_double (r * 50) \<and> round_double (r * 50) \<le> 50 - 1 / 2 ^ 47"
    by (rule product_bounds)
  then have "10 \<le> d \<and> d \<le> 60 - 1 / 2 ^ 47"
    unfolding d by (intro sum_bounds) simp_all
  then have b: "10 \<le> d" "d < 60"
    by simp_all
  then have h: "1000 \<le> hundredths d \<and> hundredths d \<le> 6000"
    by (rule hundredths_bounds)
  from b have f: "toFixed2 d =
      decimal (hundredths d div 100) @ lit ''.'' @
      [digit (hundredths d mod 100 div 10), digit (hundredths d mod 10)]"
    by (simp add: toFixed2_def Let_def)
  from b hundredths_nearest [of d] have n: "\<bar>of_nat (hundredths d) / 100 - d\<bar> \<le> 1 / 200"
    by simp
  from b h f n received_ping [of r] show ?thesis
    unfolding d_def by blast
qed

theorem ping_latency_witness:
  "(0 :: rat) \<le> 1 / 2 \<and> (1 / 2 :: rat) < 1 \<and> round_double (1 / 2) = 1 / 2 \<and>
   delay (ping (1 / 2)) = 35 \<and>
   received (answer (ping (1 / 2))) =
     Some \<lparr>status = 200, body = [(''message'', lit ''pong''), (''latency'', lit ''35.00'')]\<rparr> \<and>
   hundredths (delay (ping (1 / 2))) = 3500"
proof -
  have t: "toFixed2 35 = lit ''35.00''"
    by (simp add: toFixed2_eval)
  have h: "hundredths 35 = 3500"
    by (simp add: hundredths_def floor_numeral_div)
  have "(0 :: rat) \<le> 1 / 2" and "(1 / 2 :: rat) < 1"
    by simp_all
  from ping_latency [OF this double_half] t h show ?thesis
    by (simp add: delay_half double_half)
qed

end
